theory Spec2Isabelle
  imports Complex_Main "HOL-Library.Word"
begin

unbundle bit_operations_syntax

section \<open>The font asset generator \<^verbatim>\<open>tools/font.py\<close>\<close>

text \<open>
  The script draws the printable ASCII characters on a 16 by 6 grid and packs the canvas
  into one bit per pixel. The embedding follows the script function by function:
  \<^item> the class \<^verbatim>\<open>FontCfg\<close> is a record, its class body and \<^verbatim>\<open>as_title\<close> build the
    two configurations;
  \<^item> the image of the imaging library is a record of its size and its pixels, and
    \<^verbatim>\<open>getpixel\<close> raises \<^verbatim>\<open>IndexError\<close> outside of it;
  \<^item> Python's integers are \<^typ>\<open>int\<close>, the two loops of \<^verbatim>\<open>get_1bit\<close> are recursive
    functions over the values of \<^verbatim>\<open>range\<close> that pass the local variables along.
\<close>

subsection \<open>Python primitives\<close>

datatype error = IndexError | ValueError

text \<open>\<^verbatim>\<open>range(n)\<close>: the numbers from 0 up to \<open>n - 1\<close>, none when \<open>n \<le> 0\<close>.\<close>

definition py_range :: "int \<Rightarrow> nat list" where
  "py_range n = [0..<nat n]"

text \<open>\<^verbatim>\<open>v << n\<close> on Python integers raises \<^verbatim>\<open>ValueError\<close> for a negative shift count.\<close>

definition py_lshift :: "int \<Rightarrow> int \<Rightarrow> error + int" where
  "py_lshift v n = (if n < 0 then Inl ValueError else Inr (push_bit (nat n) v))"

text \<open>
  \<^verbatim>\<open>int(x)\<close> of a float truncates towards zero. The only floats of the script are
  \<^verbatim>\<open>26 / 16 * 9\<close> and \<^verbatim>\<open>50 / 16 * 9\<close>: multiples of one eighth below 32, which binary
  floating point represents exactly, so the rationals compute them as Python does.
\<close>

definition py_int :: "rat \<Rightarrow> int" where
  "py_int x = (if 0 \<le> x then \<lfloor>x\<rfloor> else \<lceil>x\<rceil>)"

text \<open>
  \<^verbatim>\<open>bytes(res)\<close> of a list of integers raises \<^verbatim>\<open>ValueError\<close> unless each one is in
  \<^verbatim>\<open>range(256)\<close>.
\<close>

definition py_bytes :: "int list \<Rightarrow> error + 8 word list" where
  "py_bytes xs =
     (if list_all (\<lambda>x. 0 \<le> x \<and> x < 256) xs then Inr (map word_of_int xs)
      else Inl ValueError)"

text \<open>
  \<^verbatim>\<open>str.isprintable\<close> on one character below 128: the control characters 0 to 31 and
  127 are not printable, the space and everything else is.
\<close>

definition isprintable :: "char \<Rightarrow> bool" where
  "isprintable c = (32 \<le> (of_char c :: nat) \<and> (of_char c :: nat) \<le> 126)"

subsection \<open>The configuration\<close>

text \<open>
  The class attribute \<^verbatim>\<open>SIZE\<close> is first the point size 26 and, at the end of the class
  body, rebound to the canvas size. \<^verbatim>\<open>BLOCK_SIZE\<close> exists only after \<^verbatim>\<open>as_title\<close>, which
  reads it right after it has set it: there \<open>the\<close> is applied to \<open>Some 50\<close>.
  \<^verbatim>\<open>as_title\<close> assigns the attributes of \<^verbatim>\<open>self\<close> one after the other; the model
  returns the object after the last assignment.
\<close>

record FontCfg =
  NAME :: string
  FONT :: string
  WIDTH :: int
  HEIGHT :: int
  X_PAD :: int
  Y_PAD :: int
  CHAR_SIZE :: int
  SIZE :: "int \<times> int"
  BLOCK_SIZE :: "int option"

definition FontCfg :: FontCfg where
  "FontCfg =
     (let size0 = (26 :: int);
          width = py_int (rat_of_int size0 / 16 * 9) + 1;
          height = size0 + 4
      in \<lparr>NAME = ''JBMONO'', FONT = ''JetBrainsMono.ttf'', WIDTH = width, HEIGHT = height,
          X_PAD = 0, Y_PAD = 0, CHAR_SIZE = 25, SIZE = (width * 16, height * 6),
          BLOCK_SIZE = None\<rparr>)"

definition as_title :: "FontCfg \<Rightarrow> FontCfg" where
  "as_title self =
     (let self = self\<lparr>NAME := ''JBMONO_TITLE''\<rparr>;
          self = self\<lparr>FONT := ''JetBrainsMono.ttf''\<rparr>;
          self = self\<lparr>BLOCK_SIZE := Some 50\<rparr>;
          self = self\<lparr>WIDTH := py_int (rat_of_int (the (BLOCK_SIZE self)) / 16 * 9)\<rparr>;
          self = self\<lparr>HEIGHT := the (BLOCK_SIZE self) + 4\<rparr>;
          self = self\<lparr>X_PAD := 0\<rparr>;
          self = self\<lparr>Y_PAD := 0\<rparr>;
          self = self\<lparr>CHAR_SIZE := 48\<rparr>
      in self\<lparr>SIZE := (WIDTH self * 16, HEIGHT self * 6)\<rparr>)"

subsection \<open>The glyph table of \<^verbatim>\<open>draw_img\<close>\<close>

definition ASCII :: string where
  "ASCII = map char_of [0..<128]"

definition table_string :: string where
  "table_string = filter isprintable ASCII @ ''?''"

definition table :: "string list" where
  "table = map (\<lambda>idx. take 16 (drop (idx * 16) table_string)) [0..<6]"

subsection \<open>The canvas\<close>

text \<open>
  An RGB image: its size and the triple at each position. \<^verbatim>\<open>getpixel\<close> raises
  \<^verbatim>\<open>IndexError\<close> outside of the image; the loops only ask for non-negative positions.
\<close>

type_synonym pixel = "int \<times> int \<times> int"

record image =
  im_width :: nat
  im_height :: nat
  im_pix :: "nat \<Rightarrow> nat \<Rightarrow> pixel"

definition getpixel :: "image \<Rightarrow> nat \<times> nat \<Rightarrow> error + pixel" where
  "getpixel im xy =
     (case xy of (x, y) \<Rightarrow>
        if x < im_width im \<and> y < im_height im then Inr (im_pix im x y)
        else Inl IndexError)"

subsection \<open>\<^verbatim>\<open>get_1bit\<close>\<close>

text \<open>
  The body of the inner loop after the pixel has been read: the local variables
  \<^verbatim>\<open>v\<close>, \<^verbatim>\<open>bit\<close> (here \<open>nbit\<close>, as \<open>bit\<close> is a constant of HOL) and the list
  \<^verbatim>\<open>charmap\<close> before and after.
\<close>

definition pixel_step :: "pixel \<Rightarrow> int \<times> int \<times> int list \<Rightarrow> int \<times> int \<times> int list" where
  "pixel_step b s =
     (case s of (v, nbit, charmap) \<Rightarrow>
        let v = push_bit 1 v + (if fst b > 32 then 1 else 0);
            nbit = nbit + 1
        in if nbit = 8 then (0, 0, charmap @ [v]) else (v, nbit, charmap))"

text \<open>The inner loop \<^verbatim>\<open>for x in range(cfg.SIZE[0])\<close> of row \<open>y\<close>.\<close>

fun row_loop :: "image \<Rightarrow> nat \<Rightarrow> nat list \<Rightarrow> int \<times> int \<times> int list \<Rightarrow>
    error + int \<times> int \<times> int list" where
  "row_loop im y [] s = Inr s"
| "row_loop im y (x # xs) s =
     (case getpixel im (x, y) of
        Inl e \<Rightarrow> Inl e
      | Inr b \<Rightarrow> row_loop im y xs (pixel_step b s))"

text \<open>
  The outer loop \<^verbatim>\<open>for y in range(cfg.SIZE[1])\<close>: each row starts with \<^verbatim>\<open>v = 0\<close> and
  \<^verbatim>\<open>bit = 0\<close> and ends with the append of the partial byte.
\<close>

fun rows_loop :: "FontCfg \<Rightarrow> image \<Rightarrow> nat list \<Rightarrow> int list \<Rightarrow> error + int list" where
  "rows_loop cfg im [] charmap = Inr charmap"
| "rows_loop cfg im (y # ys) charmap =
     (case row_loop im y (py_range (fst (SIZE cfg))) (0, 0, charmap) of
        Inl e \<Rightarrow> Inl e
      | Inr (v, nbit, charmap) \<Rightarrow>
          if nbit \<noteq> 0 then
            (case py_lshift v (7 - nbit) of
               Inl e \<Rightarrow> Inl e
             | Inr w \<Rightarrow> rows_loop cfg im ys (charmap @ [w]))
          else rows_loop cfg im ys charmap)"

definition get_1bit :: "FontCfg \<Rightarrow> image \<Rightarrow> error + int list" where
  "get_1bit cfg im = rows_loop cfg im (py_range (snd (SIZE cfg))) []"

subsection \<open>The bytes of a row, in closed form\<close>

text \<open>
  What the loops compute, written without the loops. \<open>acc_bits\<close> is the value of \<^verbatim>\<open>v\<close>
  after the pixels \<open>ps\<close> have been shifted in, starting from 0. \<open>row_pixels im y a b\<close>
  are the pixels of row \<open>y\<close> from column \<open>a\<close> up to column \<open>b - 1\<close>. \<open>row_bytes w im y\<close>
  are the bytes that a row of \<open>w\<close> pixels appends: one per complete group of eight
  pixels, and for a trailing group of \<open>w mod 8\<close> pixels its value shifted by
  \<open>7 - w mod 8\<close>, as line 66 of the script does.
\<close>

definition acc_bits :: "pixel list \<Rightarrow> int" where
  "acc_bits ps = foldl (\<lambda>v b. push_bit 1 v + (if fst b > 32 then 1 else 0)) 0 ps"

definition row_pixels :: "image \<Rightarrow> nat \<Rightarrow> nat \<Rightarrow> nat \<Rightarrow> pixel list" where
  "row_pixels im y a b = map (\<lambda>x. im_pix im x y) [a..<b]"

definition full_byte :: "image \<Rightarrow> nat \<Rightarrow> nat \<Rightarrow> int" where
  "full_byte im y j = acc_bits (row_pixels im y (8 * j) (8 * j + 8))"

definition row_bytes :: "nat \<Rightarrow> image \<Rightarrow> nat \<Rightarrow> int list" where
  "row_bytes w im y =
     map (full_byte im y) [0..<w div 8] @
     (if w mod 8 \<noteq> 0
      then [push_bit (7 - w mod 8) (acc_bits (row_pixels im y (8 * (w div 8)) w))]
      else [])"

subsection \<open>Where a pixel is stored\<close>

text \<open>
  Every row appends \<open>(w + 7) div 8\<close> bytes, so the byte of the pixel in column \<open>x\<close> of
  row \<open>y\<close> has the index \<open>byte_index w x y\<close> in the output. Within its byte, the pixel
  enters at bit 0 and moves up by one for each later pixel of its group: in a complete
  group that leaves it at bit \<open>7 - x mod 8\<close>; in a trailing group of \<open>w mod 8\<close> pixels
  it is at bit \<open>w mod 8 - 1 - x mod 8\<close> when the row ends, and the final shift moves it
  up by \<open>7 - w mod 8\<close> more.
\<close>

definition byte_index :: "nat \<Rightarrow> nat \<Rightarrow> nat \<Rightarrow> nat" where
  "byte_index w x y = y * ((w + 7) div 8) + x div 8"

definition bit_index :: "nat \<Rightarrow> nat \<Rightarrow> nat" where
  "bit_index w x =
     (if x div 8 < w div 8 then 7 - x mod 8
      else (w mod 8 - 1 - x mod 8) + (7 - w mod 8))"

subsection \<open>Example canvases\<close>

text \<open>
  A canvas of 10 by 2 pixels whose rows have a lit pixel in the first and in the last
  column, with the red channel just above the threshold; the same canvas with another
  first row; and the black canvas of a given size.
\<close>

definition demo_cfg :: FontCfg where
  "demo_cfg = FontCfg\<lparr>SIZE := (10, 2)\<rparr>"

definition demo_im :: image where
  "demo_im = \<lparr>im_width = 10, im_height = 2,
     im_pix = (\<lambda>x y. if x = 0 \<or> x = 9 then (33, 0, 0) else (32, 255, 255))\<rparr>"

definition demo_im2 :: image where
  "demo_im2 = \<lparr>im_width = 10, im_height = 2,
     im_pix = (\<lambda>x y. if y = 0 then (255, 255, 255) else im_pix demo_im x y)\<rparr>"

definition blank :: "nat \<Rightarrow> nat \<Rightarrow> image" where
  "blank w h = \<lparr>im_width = w, im_height = h, im_pix = (\<lambda>x y. (0, 0, 0))\<rparr>"

section \<open>The loops compute the closed form\<close>

subsection \<open>The inner loop\<close>

lemma acc_bits_Nil: "acc_bits [] = 0"
  by (simp add: acc_bits_def)

lemma acc_bits_snoc:
  "acc_bits (ps @ [b]) = push_bit 1 (acc_bits ps) + (if fst b > 32 then 1 else 0)"
  by (simp add: acc_bits_def)

lemma row_pixels_empty: "b \<le> a \<Longrightarrow> row_pixels im y a b = []"
  by (simp add: row_pixels_def)

lemma row_pixels_Suc:
  "a \<le> b \<Longrightarrow> row_pixels im y a (Suc b) = row_pixels im y a b @ [im_pix im b y]"
  by (simp add: row_pixels_def)

lemma length_row_pixels: "length (row_pixels im y a b) = b - a"
  by (simp add: row_pixels_def)

lemma nth_row_pixels: "i < b - a \<Longrightarrow> row_pixels im y a b ! i = im_pix im (a + i) y"
  by (simp add: row_pixels_def)

lemma row_loop_snoc:
  "row_loop im y (xs @ [x]) s =
     (case row_loop im y xs s of
        Inl e \<Rightarrow> Inl e
      | Inr s' \<Rightarrow> (case getpixel im (x, y) of Inl e \<Rightarrow> Inl e | Inr b \<Rightarrow> Inr (pixel_step b s')))"
  by (induction xs arbitrary: s) (auto split: sum.splits)

lemma pixel_step_partial:
  "n mod 8 \<noteq> 7 \<Longrightarrow>
   pixel_step b (v, int (n mod 8), cm) =
     (push_bit 1 v + (if fst b > 32 then 1 else 0), int (Suc n mod 8), cm)"
proof -
  assume h: "n mod 8 \<noteq> 7"
  have "n mod 8 < 8" by simp
  with h have a: "Suc n mod 8 = Suc (n mod 8)" by (simp add: mod_Suc)
  from h have "int (n mod 8) + 1 \<noteq> 8" by linarith
  then show ?thesis by (simp add: pixel_step_def a Let_def)
qed

lemma pixel_step_full:
  "n mod 8 = 7 \<Longrightarrow>
   pixel_step b (v, int (n mod 8), cm) =
     (0, int (Suc n mod 8), cm @ [push_bit 1 v + (if fst b > 32 then 1 else 0)])"
  by (simp add: pixel_step_def Let_def mod_Suc)

text \<open>
  The state of the inner loop after \<open>n\<close> pixels of row \<open>y\<close>: \<^verbatim>\<open>bit\<close> is \<open>n mod 8\<close>,
  \<^verbatim>\<open>v\<close> holds the pixels of the group that is still open, and one byte has been
  appended for every complete group.
\<close>

lemma row_loop_upt:
  "n \<le> im_width im \<Longrightarrow> y < im_height im \<Longrightarrow>
   row_loop im y [0..<n] (0, 0, cm) =
     Inr (acc_bits (row_pixels im y (8 * (n div 8)) n), int (n mod 8),
          cm @ map (full_byte im y) [0..<n div 8])"
proof (induction n)
  case 0
  then show ?case by (simp add: row_pixels_empty acc_bits_Nil)
next
  case (Suc n)
  then have IH: "row_loop im y [0..<n] (0, 0, cm) =
     Inr (acc_bits (row_pixels im y (8 * (n div 8)) n), int (n mod 8),
          cm @ map (full_byte im y) [0..<n div 8])" by simp
  from Suc.prems have px: "getpixel im (n, y) = Inr (im_pix im n y)"
    by (simp add: getpixel_def)
  have le: "8 * (n div 8) \<le> n" by simp
  show ?case
  proof (cases "n mod 8 = 7")
    case True
    then have d: "Suc n div 8 = Suc (n div 8)" and m: "Suc n mod 8 = 0"
      by (simp_all add: div_Suc mod_Suc)
    from True have e: "8 * (n div 8) + 8 = Suc n"
      using div_mult_mod_eq [of n 8] by simp
    have fb: "full_byte im y (n div 8) =
        push_bit 1 (acc_bits (row_pixels im y (8 * (n div 8)) n)) +
          (if fst (im_pix im n y) > 32 then 1 else 0)"
      unfolding full_byte_def e by (simp only: row_pixels_Suc [OF le] acc_bits_snoc)
    have emp: "row_pixels im y (8 * Suc (n div 8)) (Suc n) = []"
      using e by (simp add: row_pixels_empty)
    show ?thesis
      by (simp only: upt_Suc_append [OF le0] row_loop_snoc IH px sum.case
            pixel_step_full [OF True] fb [symmetric] emp acc_bits_Nil m d)
         simp
  next
    case False
    then have d: "Suc n div 8 = n div 8" and m: "Suc n mod 8 = Suc (n mod 8)"
      by (simp_all add: div_Suc mod_Suc)
    have le': "8 * (Suc n div 8) \<le> n" by (simp add: d)
    show ?thesis
      by (simp only: upt_Suc_append [OF le0] row_loop_snoc IH px sum.case
            pixel_step_partial [OF False] d row_pixels_Suc [OF le] acc_bits_snoc)
  qed
qed

subsection \<open>The outer loop\<close>

lemma ceil_div8: "(w + 7) div 8 = w div 8 + (if w mod 8 \<noteq> 0 then 1 else 0)" for w :: nat
proof -
  have a: "(w + 7) div 8 = w div 8 + (w mod 8 + 7) div 8"
    by (subst div_add1_eq) simp
  have r: "w mod 8 < 8" by simp
  show ?thesis
  proof (cases "w mod 8 = 0")
    case True
    then show ?thesis by (simp add: a)
  next
    case False
    with r have "(w mod 8 + 7) div 8 = 1"
      by (intro div_nat_eqI) simp_all
    with False show ?thesis by (simp add: a)
  qed
qed

lemma length_row_bytes: "length (row_bytes w im y) = (w + 7) div 8"
  by (simp add: row_bytes_def ceil_div8)

lemma row_end:
  "n \<le> im_width im \<Longrightarrow> y < im_height im \<Longrightarrow>
   (case row_loop im y [0..<n] (0, 0, cm) of
      Inl e \<Rightarrow> Inl e
    | Inr (v, nbit, charmap) \<Rightarrow>
        if nbit \<noteq> 0 then
          (case py_lshift v (7 - nbit) of
             Inl e \<Rightarrow> Inl e
           | Inr w \<Rightarrow> k (charmap @ [w]))
        else k charmap) = k (cm @ row_bytes n im y)"
proof -
  assume a: "n \<le> im_width im" "y < im_height im"
  have "n mod 8 < 8" by simp
  then have s: "nat (7 - int (n mod 8)) = 7 - n mod 8" "\<not> 7 - int (n mod 8) < 0"
    by linarith+
  show ?thesis
    by (simp add: row_loop_upt [OF a] py_lshift_def s row_bytes_def)
qed

lemma rows_loop_eq:
  "nat (fst (SIZE cfg)) \<le> im_width im \<Longrightarrow> \<forall>y \<in> set ys. y < im_height im \<Longrightarrow>
   rows_loop cfg im ys cm =
     Inr (cm @ concat (map (row_bytes (nat (fst (SIZE cfg))) im) ys))"
proof (induction ys arbitrary: cm)
  case Nil
  then show ?case by simp
next
  case (Cons y ys)
  from Cons.prems have y: "y < im_height im" by simp
  have "rows_loop cfg im (y # ys) cm =
      rows_loop cfg im ys (cm @ row_bytes (nat (fst (SIZE cfg))) im y)"
    unfolding rows_loop.simps py_range_def
    by (rule row_end [OF Cons.prems(1) y])
  also have "\<dots> = Inr ((cm @ row_bytes (nat (fst (SIZE cfg))) im y) @
      concat (map (row_bytes (nat (fst (SIZE cfg))) im) ys))"
    using Cons.prems by (intro Cons.IH) simp_all
  finally show ?case by simp
qed

lemma get_1bit_eq:
  "nat (fst (SIZE cfg)) \<le> im_width im \<Longrightarrow> nat (snd (SIZE cfg)) \<le> im_height im \<Longrightarrow>
   get_1bit cfg im =
     Inr (concat (map (row_bytes (nat (fst (SIZE cfg))) im) [0..<nat (snd (SIZE cfg))]))"
  by (simp add: get_1bit_def py_range_def rows_loop_eq)

lemma get_1bit_fits:
  "SIZE cfg = (int (im_width im), int (im_height im)) \<Longrightarrow>
   get_1bit cfg im = Inr (concat (map (row_bytes (im_width im) im) [0..<im_height im]))"
  using get_1bit_eq [of cfg im] by simp

lemma length_concat_rows:
  "(\<And>y. length (f y) = c) \<Longrightarrow> length (concat (map f [0..<h])) = h * c"
  by (induction h) simp_all

lemma nth_concat_rows:
  "(\<And>y. length (f y) = c) \<Longrightarrow> y < h \<Longrightarrow> j < c \<Longrightarrow>
   concat (map f [0..<h]) ! (y * c + j) = f y ! j"
proof (induction h)
  case 0
  then show ?case by simp
next
  case (Suc h)
  have len: "length (concat (map f [0..<h])) = h * c"
    using Suc.prems(1) by (rule length_concat_rows)
  show ?case
  proof (cases "y < h")
    case True
    have "y * c + j < Suc y * c"
      using Suc.prems(3) by simp
    also have "\<dots> \<le> h * c"
      using True by (intro mult_le_mono1) simp
    finally have "y * c + j < h * c" .
    then show ?thesis
      using Suc.IH [OF Suc.prems(1) True Suc.prems(3)] by (simp add: nth_append len)
  next
    case False
    with Suc.prems(2) have "y = h" by simp
    then show ?thesis by (simp add: nth_append len)
  qed
qed

lemma block_index_less:
  fixes y h j c :: nat
  assumes "y < h" "j < c"
  shows "y * c + j < h * c"
proof -
  have "y * c + j < Suc y * c" using assms(2) by simp
  also have "\<dots> \<le> h * c" using assms(1) by (intro mult_le_mono1) simp
  finally show ?thesis .
qed

lemma div8_less: "x < w \<Longrightarrow> x div 8 < (w + 7) div 8" for x w :: nat
proof -
  assume "x < w"
  then have "x + 8 \<le> w + 7" by simp
  then have "(x + 8) div 8 \<le> (w + 7) div 8" by (rule div_le_mono)
  then show ?thesis by simp
qed

lemma ceiling_eighth: "\<lceil>real w / 8\<rceil> = int ((w + 7) div 8)"
proof -
  have "\<lceil>real w / 8\<rceil> = \<lceil>real_of_int (int w) / real_of_int 8\<rceil>" by simp
  also have "\<dots> = - (- int w div 8)" by (rule ceiling_divide_eq_div)
  also have "\<dots> = int ((w + 7) div 8)" by (simp add: zdiv_int)
  finally show ?thesis .
qed

lemma packed_length:
  "SIZE cfg = (int (im_width im), int (im_height im)) \<Longrightarrow>
   \<exists>bs. get_1bit cfg im = Inr bs \<and> length bs = im_height im * ((im_width im + 7) div 8)"
  by (simp add: get_1bit_fits length_concat_rows [OF length_row_bytes])

lemma get_1bit_nth:
  assumes "SIZE cfg = (int (im_width im), int (im_height im))"
    and "y < im_height im" and "j < (im_width im + 7) div 8"
  shows "\<exists>bs. get_1bit cfg im = Inr bs \<and>
     bs ! (y * ((im_width im + 7) div 8) + j) = row_bytes (im_width im) im y ! j"
  by (simp add: get_1bit_fits [OF assms(1)] nth_concat_rows [OF length_row_bytes assms(2,3)])

subsection \<open>The bits of a byte\<close>

lemma bit_acc_bits:
  "bit (acc_bits ps) i \<longleftrightarrow> i < length ps \<and> fst (ps ! (length ps - 1 - i)) > 32"
proof (induction ps arbitrary: i rule: rev_induct)
  case Nil
  then show ?case by (simp add: acc_bits_Nil)
next
  case (snoc b ps)
  show ?case
  proof (cases i)
    case 0
    then show ?thesis by (simp add: acc_bits_snoc bit_0)
  next
    case (Suc k)
    have "bit (acc_bits (ps @ [b])) (Suc k) \<longleftrightarrow> bit (acc_bits ps) k"
      by (simp add: acc_bits_snoc bit_Suc)
    also have "\<dots> \<longleftrightarrow> k < length ps \<and> fst (ps ! (length ps - 1 - k)) > 32"
      by (rule snoc.IH)
    finally show ?thesis by (auto simp add: Suc nth_append)
  qed
qed

lemma acc_bits_nonneg: "0 \<le> acc_bits ps"
  by (induction ps rule: rev_induct) (simp_all add: acc_bits_Nil acc_bits_snoc)

lemma acc_bits_less: "acc_bits ps < 2 ^ length ps"
  by (induction ps rule: rev_induct) (simp_all add: acc_bits_Nil acc_bits_snoc)

lemma row_bytes_full_nth:
  "j < w div 8 \<Longrightarrow> row_bytes w im y ! j = full_byte im y j"
  by (simp add: row_bytes_def nth_append)

lemma row_bytes_last_nth:
  "w mod 8 \<noteq> 0 \<Longrightarrow>
   row_bytes w im y ! (w div 8) =
     push_bit (7 - w mod 8) (acc_bits (row_pixels im y (8 * (w div 8)) w))"
  by (simp add: row_bytes_def nth_append)

lemma bit_full_byte:
  "k < 8 \<Longrightarrow> bit (full_byte im y j) (7 - k) \<longleftrightarrow> fst (im_pix im (8 * j + k) y) > 32"
proof -
  assume "k < 8"
  then have a: "7 - k < 8" "8 - Suc 0 - (7 - k) = k" by linarith+
  show ?thesis
    using \<open>k < 8\<close> by (simp add: full_byte_def bit_acc_bits length_row_pixels nth_row_pixels a)
qed

lemma bit_row_bytes_full:
  assumes "x div 8 < w div 8"
  shows "bit (row_bytes w im y ! (x div 8)) (7 - x mod 8) \<longleftrightarrow> fst (im_pix im x y) > 32"
proof -
  have "x mod 8 < 8" by simp
  then have "bit (full_byte im y (x div 8)) (7 - x mod 8) \<longleftrightarrow>
      fst (im_pix im (8 * (x div 8) + x mod 8) y) > 32"
    by (rule bit_full_byte)
  then show ?thesis by (simp add: row_bytes_full_nth [OF assms])
qed

lemma partial_group:
  fixes x w :: nat
  assumes "x < w" "\<not> x div 8 < w div 8"
  shows "x div 8 = w div 8" and "x mod 8 < w mod 8"
proof -
  from assms(1) have "x div 8 \<le> w div 8" by (intro div_le_mono) simp
  with assms(2) show d: "x div 8 = w div 8" by simp
  have "8 * (x div 8) + x mod 8 < 8 * (w div 8) + w mod 8"
    using assms(1) by (simp only: mult_div_mod_eq)
  then show "x mod 8 < w mod 8" by (simp only: d nat_add_left_cancel_less)
qed

lemma bit_row_bytes_last:
  assumes "x < w" "\<not> x div 8 < w div 8"
  shows "bit (row_bytes w im y ! (x div 8)) ((w mod 8 - 1 - x mod 8) + (7 - w mod 8)) \<longleftrightarrow>
     fst (im_pix im x y) > 32"
proof -
  let ?rp = "row_pixels im y (8 * (w div 8)) w"
  note d = partial_group(1) [OF assms] and m = partial_group(2) [OF assms]
  from m have nz: "w mod 8 \<noteq> 0" by simp
  have x_eq: "8 * (w div 8) + x mod 8 = x"
    using mult_div_mod_eq [of 8 x] by (simp only: d)
  have "8 * (w div 8) + w mod 8 = w" by (rule mult_div_mod_eq)
  then have len: "length ?rp = w mod 8"
    unfolding length_row_pixels by linarith
  have i: "w mod 8 - 1 - (w mod 8 - 1 - x mod 8) = x mod 8" "w mod 8 - 1 - x mod 8 < w mod 8"
    using m by linarith+
  have "bit (row_bytes w im y ! (x div 8)) ((w mod 8 - 1 - x mod 8) + (7 - w mod 8)) \<longleftrightarrow>
      bit (push_bit (7 - w mod 8) (acc_bits ?rp)) ((w mod 8 - 1 - x mod 8) + (7 - w mod 8))"
    by (simp only: d row_bytes_last_nth [OF nz])
  also have "\<dots> \<longleftrightarrow> bit (acc_bits ?rp) (w mod 8 - 1 - x mod 8)"
    by (simp only: bit_push_bit_iff_int le_add2 add_diff_cancel_right' simp_thms)
  also have "\<dots> \<longleftrightarrow> fst (?rp ! (x mod 8)) > 32"
    by (simp only: bit_acc_bits len i simp_thms)
  also have "?rp ! (x mod 8) = im_pix im (8 * (w div 8) + x mod 8) y"
    using m len by (intro nth_row_pixels) (simp add: length_row_pixels)
  finally show ?thesis by (simp only: x_eq)
qed

lemma bit_row_bytes:
  "x < w \<Longrightarrow> bit (row_bytes w im y ! (x div 8)) (bit_index w x) \<longleftrightarrow> fst (im_pix im x y) > 32"
proof (cases "x div 8 < w div 8")
  case True
  then have "bit_index w x = 7 - x mod 8" by (simp add: bit_index_def)
  then show ?thesis using bit_row_bytes_full [OF True] by simp
next
  case False
  assume "x < w"
  from False have "bit_index w x = (w mod 8 - 1 - x mod 8) + (7 - w mod 8)"
    by (simp only: bit_index_def if_False)
  then show ?thesis using bit_row_bytes_last [OF \<open>x < w\<close> False] by (simp only:)
qed

lemma bit_index_less: "bit_index w x < 8"
proof -
  have a: "(m - 1 - k) + (7 - m) < 8" if "m < 8" for m k :: nat
    using that by linarith
  have b: "7 - k < 8" for k :: nat
    by linarith
  have "w mod 8 < 8" by simp
  then have "(w mod 8 - 1 - x mod 8) + (7 - w mod 8) < 8" by (rule a)
  with b [of "x mod 8"] show ?thesis
    by (cases "x div 8 < w div 8") (simp_all only: bit_index_def if_True if_False)
qed

subsection \<open>Ranges and dependencies\<close>

lemma full_byte_range: "0 \<le> full_byte im y j \<and> full_byte im y j \<le> 255"
proof -
  have "acc_bits (row_pixels im y (8 * j) (8 * j + 8)) < 2 ^ 8"
    using acc_bits_less [of "row_pixels im y (8 * j) (8 * j + 8)"]
    by (simp add: length_row_pixels)
  then show ?thesis by (simp add: full_byte_def acc_bits_nonneg)
qed

lemma last_byte_range:
  assumes "w mod 8 \<noteq> 0"
  shows "0 \<le> push_bit (7 - w mod 8) (acc_bits (row_pixels im y (8 * (w div 8)) w)) \<and>
     push_bit (7 - w mod 8) (acc_bits (row_pixels im y (8 * (w div 8)) w)) \<le> 127"
proof -
  let ?a = "acc_bits (row_pixels im y (8 * (w div 8)) w)"
  have "8 * (w div 8) + w mod 8 = w" by (rule mult_div_mod_eq)
  then have len: "length (row_pixels im y (8 * (w div 8)) w) = w mod 8"
    unfolding length_row_pixels by linarith
  have lt: "?a < 2 ^ (w mod 8)"
    using acc_bits_less [of "row_pixels im y (8 * (w div 8)) w"] by (simp only: len)
  have w8: "w mod 8 < 8" by simp
  have "push_bit (7 - w mod 8) ?a = ?a * 2 ^ (7 - w mod 8)" by (simp add: push_bit_eq_mult)
  also have "\<dots> < 2 ^ (w mod 8) * 2 ^ (7 - w mod 8)"
    using lt by simp
  also have "\<dots> = (2::int) ^ (w mod 8 + (7 - w mod 8))"
    by (simp only: power_add)
  also have "w mod 8 + (7 - w mod 8) = 7" using w8 by linarith
  finally have "push_bit (7 - w mod 8) ?a < 128" by simp
  then show ?thesis by (simp add: acc_bits_nonneg)
qed

lemma row_bytes_range:
  assumes "b \<in> set (row_bytes w im y)"
  shows "0 \<le> b \<and> b \<le> 255"
proof (cases "w mod 8 = 0")
  case True
  with assms obtain j where "b = full_byte im y j"
    by (auto simp add: row_bytes_def)
  then show ?thesis by (simp only: full_byte_range)
next
  case False
  with assms consider j where "b = full_byte im y j"
    | "b = push_bit (7 - w mod 8) (acc_bits (row_pixels im y (8 * (w div 8)) w))"
    by (auto simp add: row_bytes_def)
  then show ?thesis
  proof cases
    case 1
    then show ?thesis by (simp only: full_byte_range)
  next
    case 2
    then show ?thesis using last_byte_range [OF False, of im y] by simp
  qed
qed

lemma get_1bit_range:
  assumes "SIZE cfg = (int (im_width im), int (im_height im))"
  shows "\<exists>bs. get_1bit cfg im = Inr bs \<and> (\<forall>b\<in>set bs. 0 \<le> b \<and> b \<le> 255)"
  using row_bytes_range by (simp add: get_1bit_fits [OF assms])

lemma row_bytes_cong:
  assumes h: "\<forall>x<w. im_pix im x y = im_pix im' x y"
  shows "row_bytes w im y = row_bytes w im' y"
proof -
  have rp: "row_pixels im y a b = row_pixels im' y a b" if "b \<le> w" for a b
    using h that by (simp add: row_pixels_def)
  have fb: "full_byte im y j = full_byte im' y j" if "j < w div 8" for j
  proof -
    from that have "Suc j \<le> w div 8" by simp
    then have "8 * Suc j \<le> 8 * (w div 8)" by (simp only: mult_le_mono2)
    also have "\<dots> \<le> w" by simp
    finally have "8 * j + 8 \<le> w" by simp
    then show ?thesis by (simp only: full_byte_def rp)
  qed
  have "map (full_byte im y) [0..<w div 8] = map (full_byte im' y) [0..<w div 8]"
    using fb by simp
  then show ?thesis
    by (simp only: row_bytes_def rp [OF order_refl])
qed

lemma demo_fits: "SIZE demo_cfg = (int (im_width demo_im), int (im_height demo_im))"
  by (simp add: demo_cfg_def demo_im_def)

lemma FontCfg_values: "WIDTH FontCfg = 15" "HEIGHT FontCfg = 30" "SIZE FontCfg = (240, 180)"
  by code_simp+

lemma as_title_values:
  "WIDTH (as_title FontCfg) = 28" "HEIGHT (as_title FontCfg) = 54"
  "SIZE (as_title FontCfg) = (448, 324)"
  by code_simp+

subsection \<open>Complete groups of eight pixels\<close>

text \<open>
  A column \<open>x\<close> is in a complete group when \<open>x div 8 < w div 8\<close>. Its pixel is in bit
  \<open>7 - x mod 8\<close> of byte \<open>x div 8\<close> of the bytes of its row, which start at index
  \<open>y * ((w + 7) div 8)\<close> of the output; a row that has a complete group has its first
  pixel in one, in bit 7 of the first byte of the row.
\<close>

lemma complete_group_msb_first:
  assumes "SIZE cfg = (int (im_width im), int (im_height im))"
    and "y < im_height im" and "x div 8 < im_width im div 8"
  shows "\<exists>bs. get_1bit cfg im = Inr bs \<and>
     (bit (bs ! (y * ((im_width im + 7) div 8) + x div 8)) (7 - x mod 8) \<longleftrightarrow>
        fst (im_pix im x y) > 32) \<and>
     (bit (bs ! (y * ((im_width im + 7) div 8))) 7 \<longleftrightarrow> fst (im_pix im 0 y) > 32)"
proof -
  let ?w = "im_width im" and ?c = "(im_width im + 7) div 8"
  have c: "?c = ?w div 8 + (if ?w mod 8 \<noteq> 0 then 1 else 0)" by (rule ceil_div8)
  from assms(3) have j: "x div 8 < ?c" and z: "0 div 8 < ?w div 8" "(0::nat) div 8 < ?c"
    by (simp_all add: c)
  obtain bs where bs: "get_1bit cfg im = Inr bs"
    and nth: "bs ! (y * ?c + x div 8) = row_bytes ?w im y ! (x div 8)"
    using get_1bit_nth [OF assms(1,2) j] by blast
  obtain bs' where "get_1bit cfg im = Inr bs'"
    and "bs' ! (y * ?c + 0 div 8) = row_bytes ?w im y ! (0 div 8)"
    using get_1bit_nth [OF assms(1,2) z(2)] by blast
  with bs have nth0: "bs ! (y * ?c) = row_bytes ?w im y ! (0 div 8)" by simp
  have "bit (bs ! (y * ?c + x div 8)) (7 - x mod 8) \<longleftrightarrow> fst (im_pix im x y) > 32"
    unfolding nth using assms(3) by (rule bit_row_bytes_full)
  moreover have "bit (bs ! (y * ?c)) 7 \<longleftrightarrow> fst (im_pix im 0 y) > 32"
    unfolding nth0 using bit_row_bytes_full [OF z(1), of im y] by simp
  ultimately show ?thesis using bs by blast
qed

section \<open>The properties of the specification\<close>

text \<open>
  In the theorems on \<open>get_1bit\<close> the image has the size of the canvas,
  \<open>SIZE cfg = (int (im_width im), int (im_height im))\<close>, as the image that \<^verbatim>\<open>draw_img\<close>
  makes for the configuration has: then every pixel that the loops ask for exists, and
  \<open>get_1bit\<close> returns a list.
\<close>

subsection \<open>The trailing byte of a row\<close>

text \<open>
  Claim C1: in \<^verbatim>\<open>get_1bit\<close>, the trailing partial byte of a row whose width is not a
  multiple of 8 has the collected bits in the high-order positions, the first collected
  pixel in bit 7, and zeros below.

  The script shifts the collected bits by \<^verbatim>\<open>7 - bit\<close>, one less than the
  \<^verbatim>\<open>8 - bit\<close> that would move the first of them to bit 7. On a canvas of one lit
  pixel the byte is 64, not 128: the pixel is in bit 6, and bit 7 is clear. The lemmas
  \<open>bit_row_bytes_last\<close> and \<open>last_byte_range\<close> say the same of every trailing byte.
\<close>

theorem partial_byte_lands_in_bit_6:
  "get_1bit (FontCfg\<lparr>SIZE := (1, 1)\<rparr>)
     \<lparr>im_width = 1, im_height = 1, im_pix = (\<lambda>x y. (255, 255, 255))\<rparr> = Inr [64] \<and>
   bit (64 :: int) 6 \<and> \<not> bit (64 :: int) 7"
  by code_simp

subsection \<open>The length of the output\<close>

text \<open>
  Claim C2: for a configuration with canvas width \<open>W\<close> and height \<open>H\<close> and a pixel
  buffer of \<open>W\<close> by \<open>H\<close> pixels, \<^verbatim>\<open>get_1bit\<close> returns a list of
  \<open>\<lceil>W / 8\<rceil> * H\<close> elements.
\<close>

theorem get_1bit_length:
  assumes "SIZE cfg = (int W, int H)" and "im_width im = W" and "im_height im = H"
  shows "\<exists>bs. get_1bit cfg im = Inr bs \<and> int (length bs) = \<lceil>real W / 8\<rceil> * int H"
proof -
  from assms have "SIZE cfg = (int (im_width im), int (im_height im))" by simp
  then obtain bs where "get_1bit cfg im = Inr bs"
    and "length bs = im_height im * ((im_width im + 7) div 8)"
    using packed_length by blast
  then show ?thesis using assms(2,3) by (simp add: ceiling_eighth)
qed

theorem get_1bit_length_witness:
  "\<exists>bs. get_1bit demo_cfg demo_im = Inr bs \<and> int (length bs) = \<lceil>real 10 / 8\<rceil> * int 2"
  using get_1bit_length [of demo_cfg 10 2 demo_im] by (simp add: demo_cfg_def demo_im_def)

subsection \<open>The threshold\<close>

text \<open>
  Claim C3: for every pixel of the canvas, the bit that \<^verbatim>\<open>get_1bit\<close> packs for it is 1
  if and only if the red channel of the pixel is greater than 32, and 0 if it is at most
  32. The bit of the pixel in column \<open>x\<close> of row \<open>y\<close> is bit \<open>bit_index w x\<close> of the
  byte \<open>byte_index w x y\<close> of the output.
\<close>

theorem get_1bit_threshold:
  assumes "SIZE cfg = (int (im_width im), int (im_height im))"
    and "x < im_width im" and "y < im_height im"
  shows "\<exists>bs. get_1bit cfg im = Inr bs \<and>
     byte_index (im_width im) x y < length bs \<and> bit_index (im_width im) x < 8 \<and>
     (bit (bs ! byte_index (im_width im) x y) (bit_index (im_width im) x) \<longleftrightarrow>
        fst (im_pix im x y) > 32)"
proof -
  let ?c = "(im_width im + 7) div 8"
  have j: "x div 8 < ?c" using assms(2) by (rule div8_less)
  obtain bs where bs: "get_1bit cfg im = Inr bs" "length bs = im_height im * ?c"
    using packed_length [OF assms(1)] by blast
  obtain bs' where "get_1bit cfg im = Inr bs'"
    and "bs' ! (y * ?c + x div 8) = row_bytes (im_width im) im y ! (x div 8)"
    using get_1bit_nth [OF assms(1,3) j] by blast
  with bs have nth: "bs ! byte_index (im_width im) x y = row_bytes (im_width im) im y ! (x div 8)"
    by (simp add: byte_index_def)
  have "byte_index (im_width im) x y < length bs"
    unfolding byte_index_def bs(2) using assms(3) j by (rule block_index_less)
  moreover have "bit_index (im_width im) x < 8"
    by (rule bit_index_less)
  moreover have "bit (bs ! byte_index (im_width im) x y) (bit_index (im_width im) x) \<longleftrightarrow>
      fst (im_pix im x y) > 32"
    unfolding nth using assms(2) by (rule bit_row_bytes)
  ultimately show ?thesis using bs(1) by blast
qed

theorem get_1bit_threshold_witness:
  "\<exists>bs. get_1bit demo_cfg demo_im = Inr bs \<and>
     byte_index 10 9 1 < length bs \<and> bit_index 10 9 < 8 \<and>
     bit (bs ! byte_index 10 9 1) (bit_index 10 9)"
  using get_1bit_threshold [OF demo_fits, of 9 1] by (simp add: demo_im_def)

subsection \<open>Row-major, most significant bit first\<close>

text \<open>
  Claim C4: \<^verbatim>\<open>get_1bit\<close> packs row-major and most significant bit first. In every row,
  pixel \<open>k\<close> of a complete group of 8 is in bit \<open>7 - k mod 8\<close> of byte \<open>k div 8\<close> of
  the bytes of the row; in particular the first pixel of each row is in the most
  significant bit of the first byte of the row.

  For the pixels of complete groups this is the lemma \<open>complete_group_msb_first\<close>, and
  with it the first pixel of every row of at least 8 pixels. In a row of 1 to 7 pixels
  the first pixel is in the trailing byte, which line 66 shifts by \<^verbatim>\<open>7 - bit\<close>: on a
  canvas of 3 by 2 pixels whose rows start with a lit pixel, both rows give the byte 64,
  the first pixel in bit 6 and the most significant bit clear. The cause is the shift
  count of C1.
\<close>

theorem first_pixel_of_narrow_row_in_bit_6:
  "get_1bit (FontCfg\<lparr>SIZE := (3, 2)\<rparr>)
     \<lparr>im_width = 3, im_height = 2,
      im_pix = (\<lambda>x y. if x = 0 then (255, 255, 255) else (0, 0, 0))\<rparr> = Inr [64, 64] \<and>
   bit (64 :: int) 6 \<and> \<not> bit (64 :: int) 7"
  by code_simp

subsection \<open>Rows do not share bytes\<close>

text \<open>
  Claim C5: every row starts a fresh byte, the accumulator and the bit counter being
  reset at the start of the row, so that no byte of the output holds bits of pixels of
  two rows, also when the width is not a multiple of 8. Row \<open>y\<close> owns the bytes
  \<open>y * ((w + 7) div 8) + j\<close> for \<open>j < (w + 7) div 8\<close>, where C3 finds its pixels; each of
  these bytes is the same for two canvases that agree on row \<open>y\<close>, whatever their other
  rows hold.
\<close>

theorem rows_start_fresh_byte:
  assumes "SIZE cfg = (int (im_width im), int (im_height im))"
    and "im_width im' = im_width im" and "im_height im' = im_height im"
    and "y < im_height im" and "j < (im_width im + 7) div 8"
    and "\<forall>x<im_width im. im_pix im' x y = im_pix im x y"
  shows "\<exists>bs bs'. get_1bit cfg im = Inr bs \<and> get_1bit cfg im' = Inr bs' \<and>
     y * ((im_width im + 7) div 8) + j < length bs \<and> length bs' = length bs \<and>
     bs' ! (y * ((im_width im + 7) div 8) + j) = bs ! (y * ((im_width im + 7) div 8) + j)"
proof -
  let ?w = "im_width im" and ?c = "(im_width im + 7) div 8"
  from assms(1-3) have fits': "SIZE cfg = (int (im_width im'), int (im_height im'))" by simp
  obtain bs where bs: "get_1bit cfg im = Inr bs" "length bs = im_height im * ?c"
    using packed_length [OF assms(1)] by blast
  obtain bs' where bs': "get_1bit cfg im' = Inr bs'" "length bs' = im_height im * ?c"
    using packed_length [OF fits'] assms(2,3) by auto
  obtain cs where "get_1bit cfg im = Inr cs" "cs ! (y * ?c + j) = row_bytes ?w im y ! j"
    using get_1bit_nth [OF assms(1,4,5)] by blast
  with bs have n: "bs ! (y * ?c + j) = row_bytes ?w im y ! j" by simp
  obtain cs' where "get_1bit cfg im' = Inr cs'" "cs' ! (y * ?c + j) = row_bytes ?w im' y ! j"
    using get_1bit_nth [OF fits', of y j] assms(2-5) by auto
  with bs' have n': "bs' ! (y * ?c + j) = row_bytes ?w im' y ! j" by simp
  have "row_bytes ?w im' y = row_bytes ?w im y"
    using assms(6) by (rule row_bytes_cong)
  with n n' have "bs' ! (y * ?c + j) = bs ! (y * ?c + j)" by simp
  moreover have "y * ?c + j < length bs"
    unfolding bs(2) using assms(4,5) by (rule block_index_less)
  ultimately show ?thesis using bs bs' by simp
qed

theorem rows_start_fresh_byte_witness:
  "\<exists>bs bs'. get_1bit demo_cfg demo_im = Inr bs \<and> get_1bit demo_cfg demo_im2 = Inr bs' \<and>
     1 * ((10 + 7) div 8) + 1 < length bs \<and> length bs' = length bs \<and>
     bs' ! (1 * ((10 + 7) div 8) + 1) = bs ! (1 * ((10 + 7) div 8) + 1)"
  using rows_start_fresh_byte [OF demo_fits, of demo_im2 1 1]
  by (simp add: demo_im_def demo_im2_def)

subsection \<open>The glyph table\<close>

text \<open>
  The printable characters among the first 128 are the 95 characters from the space to
  the tilde, so the table with the placeholder has 96 entries, not 97.
\<close>

theorem glyph_table_not_97: "length table_string \<noteq> 97"
  by code_simp

text \<open>
  Claim C6, amended: the glyph table of \<^verbatim>\<open>draw_img\<close>, the printable characters among
  the first 128 and one appended \<^verbatim>\<open>?\<close>, has exactly 96 entries, 95 printable characters
  and the placeholder; they are arranged as 6 full rows of 16 characters, and the
  placeholder is at index 95, the last cell of the last row.
\<close>

theorem glyph_table_96:
  "length (filter isprintable ASCII) = 95 \<and> length table_string = 96 \<and>
   map length table = [16, 16, 16, 16, 16, 16] \<and> concat table = table_string \<and>
   table_string ! 95 = CHR ''?'' \<and> table ! 5 ! 15 = CHR ''?''"
  by code_simp

subsection \<open>The two configurations\<close>

text \<open>
  The class body computes \<^verbatim>\<open>int(26 / 16 * 9) + 1\<close>, which is 15 and not 16.
\<close>

theorem body_cfg_not_16:
  "\<not> (WIDTH FontCfg = 16 \<and> HEIGHT FontCfg = 30 \<and> SIZE FontCfg = (256, 180))"
  by (simp add: FontCfg_values)

text \<open>
  Claim C7, amended: the body configuration, of point size 26, has the cell width 15 and
  the cell height 30, its canvas is 240 by 180 pixels, and the packed output for it has
  \<open>\<lceil>240 / 8\<rceil> * 180 = 5400\<close> bytes.
\<close>

theorem body_cfg_5400:
  assumes "im_width im = 240" and "im_height im = 180"
  shows "WIDTH FontCfg = 15 \<and> HEIGHT FontCfg = 30 \<and> SIZE FontCfg = (240, 180) \<and>
     (\<exists>bs. get_1bit FontCfg im = Inr bs \<and> int (length bs) = \<lceil>240 / 8 :: real\<rceil> * 180 \<and>
        length bs = 5400)"
proof -
  have "SIZE FontCfg = (int (im_width im), int (im_height im))"
    by (simp add: FontCfg_values assms)
  then obtain bs where "get_1bit FontCfg im = Inr bs"
    and "length bs = im_height im * ((im_width im + 7) div 8)"
    using packed_length by blast
  then have "get_1bit FontCfg im = Inr bs \<and> int (length bs) = \<lceil>240 / 8 :: real\<rceil> * 180 \<and>
      length bs = 5400"
    by (simp add: assms)
  then show ?thesis by (simp only: FontCfg_values simp_thms) blast
qed

theorem body_cfg_5400_witness:
  "\<exists>bs. get_1bit FontCfg (blank 240 180) = Inr bs \<and> length bs = 5400"
  using body_cfg_5400 [of "blank 240 180"] by (simp add: blank_def)

text \<open>
  Claim C8: the title configuration, made by \<^verbatim>\<open>as_title\<close> with \<^verbatim>\<open>BLOCK_SIZE = 50\<close>, has
  the cell width 28 and the cell height 54, its canvas is 448 by 324 pixels, and the
  packed output for it has \<open>\<lceil>448 / 8\<rceil> * 324 = 18144\<close> bytes.
\<close>

theorem title_cfg_18144:
  assumes "im_width im = 448" and "im_height im = 324"
  shows "WIDTH (as_title FontCfg) = 28 \<and> HEIGHT (as_title FontCfg) = 54 \<and>
     SIZE (as_title FontCfg) = (448, 324) \<and>
     (\<exists>bs. get_1bit (as_title FontCfg) im = Inr bs \<and>
        int (length bs) = \<lceil>448 / 8 :: real\<rceil> * 324 \<and> length bs = 18144)"
proof -
  have "SIZE (as_title FontCfg) = (int (im_width im), int (im_height im))"
    by (simp add: as_title_values assms)
  then obtain bs where "get_1bit (as_title FontCfg) im = Inr bs"
    and "length bs = im_height im * ((im_width im + 7) div 8)"
    using packed_length by blast
  then have "get_1bit (as_title FontCfg) im = Inr bs \<and>
      int (length bs) = \<lceil>448 / 8 :: real\<rceil> * 324 \<and> length bs = 18144"
    by (simp add: assms)
  then show ?thesis by (simp only: as_title_values simp_thms) blast
qed

theorem title_cfg_18144_witness:
  "\<exists>bs. get_1bit (as_title FontCfg) (blank 448 324) = Inr bs \<and> length bs = 18144"
  using title_cfg_18144 [of "blank 448 324"] by (simp add: blank_def)

subsection \<open>The range of the bytes\<close>

text \<open>
  Claim C10: every element of the list that \<^verbatim>\<open>get_1bit\<close> returns is an integer from 0
  to 255, so that \<^verbatim>\<open>bytes(res)\<close> in \<^verbatim>\<open>gen\<close> does not fail.
\<close>

theorem get_1bit_byte_range:
  assumes "SIZE cfg = (int (im_width im), int (im_height im))"
  shows "\<exists>bs. get_1bit cfg im = Inr bs \<and> (\<forall>b\<in>set bs. 0 \<le> b \<and> b \<le> 255) \<and>
     (\<exists>ws. py_bytes bs = Inr ws)"
proof -
  obtain bs where bs: "get_1bit cfg im = Inr bs" "\<forall>b\<in>set bs. 0 \<le> b \<and> b \<le> 255"
    using get_1bit_range [OF assms] by blast
  from bs(2) have "list_all (\<lambda>x. 0 \<le> x \<and> x < 256) bs"
    by (simp add: list_all_iff) force
  then have "\<exists>ws. py_bytes bs = Inr ws" by (simp add: py_bytes_def)
  with bs show ?thesis by blast
qed

theorem get_1bit_byte_range_witness:
  "\<exists>bs. get_1bit demo_cfg demo_im = Inr bs \<and> list_all (\<lambda>b. 0 \<le> b \<and> b \<le> 255) bs \<and>
     (\<exists>ws. py_bytes bs = Inr ws)"
  using get_1bit_byte_range [OF demo_fits] by (simp add: list_all_iff)

end
